theory Spec2Isabelle
  imports Main "HOL-Library.Word"
begin

unbundle bit_operations_syntax

section \<open>The environment of the unpacker\<close>

subsection \<open>The stream behind the file descriptor\<close>

text \<open>
  \<open>Unpacker\<close> (src/message_pack/unpack.h) holds a file descriptor and calls
  \<^verbatim>\<open>::read(fd, buf, bytes)\<close> on it. What the descriptor will deliver is modelled as a
  list of events: a non-empty chunk of bytes that has arrived (a read returns at most the
  chunk, so short reads are possible), or a failing call with its \<open>errno\<close>. When no event is
  left the stream is at its end and every read returns 0 bytes. The number of calls made so
  far is counted.
\<close>

type_synonym byte = "8 word"

datatype errno = EINTR | Errno nat

datatype event = Chunk byte "byte list" | Error errno

record fd_state =
  pending :: "event list"
  read_calls :: nat

text \<open>The value of \<^verbatim>\<open>::read\<close>: the bytes stored (their number is returned), or -1 with errno.\<close>

datatype read_outcome = Got "byte list" | Failed errno

definition sys_read :: "fd_state \<Rightarrow> nat \<Rightarrow> read_outcome \<times> fd_state" where
  "sys_read s n =
     (case pending s of
        [] \<Rightarrow> (Got [], s\<lparr>read_calls := Suc (read_calls s)\<rparr>)
      | Error e # rest \<Rightarrow> (Failed e, s\<lparr>pending := rest, read_calls := Suc (read_calls s)\<rparr>)
      | Chunk b bs # rest \<Rightarrow>
          (Got (take n (b # bs)),
           s\<lparr>pending := (case drop n (b # bs) of [] \<Rightarrow> rest | c # cs \<Rightarrow> Chunk c cs # rest),
             read_calls := Suc (read_calls s)\<rparr>))"

subsection \<open>The platform\<close>

text \<open>
  The byte order of the host and the C library's \<^verbatim>\<open>strerror\<close> are not part of the
  repository; they are parameters of the model.
\<close>

record platform =
  little_endian :: bool
  strerror :: "errno \<Rightarrow> string"

text \<open>
  The value of an integer object whose bytes, in memory order, are \<open>bs\<close>: what
  \<^verbatim>\<open>read_raw<T>\<close> returns after \<^verbatim>\<open>read_raw_bytes((uint8_t*) &obj, sizeof(obj))\<close>.
\<close>

definition be_value :: "byte list \<Rightarrow> 'a::len word" where
  "be_value bs = foldl (\<lambda>acc b. push_bit 8 acc OR ucast b) 0 bs"

definition native_value :: "platform \<Rightarrow> byte list \<Rightarrow> 'a::len word" where
  "native_value pf bs = (if little_endian pf then be_value (rev bs) else be_value bs)"

text \<open>
  The byte swaps behind \<^verbatim>\<open>ntohs\<close>, \<^verbatim>\<open>ntohl\<close> and \<^verbatim>\<open>ntohll\<close> on a little-endian host:
  byte \<open>i\<close> of the argument, counted from the low end, becomes byte \<open>i\<close> of the result,
  counted from the high end.
\<close>

definition byte_at :: "nat \<Rightarrow> 'a::len word \<Rightarrow> byte" where
  "byte_at i x = ucast (drop_bit (8 * i) x)"

definition bswap16 :: "16 word \<Rightarrow> 16 word" where
  "bswap16 x = push_bit 8 (ucast (byte_at 0 x)) OR ucast (byte_at 1 x)"

definition bswap32 :: "32 word \<Rightarrow> 32 word" where
  "bswap32 x =
     push_bit 24 (ucast (byte_at 0 x)) OR push_bit 16 (ucast (byte_at 1 x))
     OR push_bit 8 (ucast (byte_at 2 x)) OR ucast (byte_at 3 x)"

definition bswap64 :: "64 word \<Rightarrow> 64 word" where
  "bswap64 x =
     push_bit 56 (ucast (byte_at 0 x)) OR push_bit 48 (ucast (byte_at 1 x))
     OR push_bit 40 (ucast (byte_at 2 x)) OR push_bit 32 (ucast (byte_at 3 x))
     OR push_bit 24 (ucast (byte_at 4 x)) OR push_bit 16 (ucast (byte_at 5 x))
     OR push_bit 8 (ucast (byte_at 6 x)) OR ucast (byte_at 7 x)"

definition ntohs :: "platform \<Rightarrow> 16 word \<Rightarrow> 16 word" where
  "ntohs pf x = (if little_endian pf then bswap16 x else x)"

definition ntohl :: "platform \<Rightarrow> 32 word \<Rightarrow> 32 word" where
  "ntohl pf x = (if little_endian pf then bswap32 x else x)"

text \<open>
  Modelled from the spec: \<^verbatim>\<open>ntohll\<close> comes from endian.h, which is missing; the spec says that
  multi-byte integers are converted from big-endian wire order to native order.
\<close>

definition ntohll :: "platform \<Rightarrow> 64 word \<Rightarrow> 64 word" where
  "ntohll pf x = (if little_endian pf then bswap64 x else x)"

section \<open>The unpacker\<close>

text \<open>
  What a call can throw: \<^verbatim>\<open>unpacker_error\<close> with its message, and, out of the standard
  library's vector, \<^verbatim>\<open>std::length_error\<close> and \<^verbatim>\<open>std::bad_alloc\<close>.
\<close>

datatype thrown = Unpacker_error string | Length_error | Bad_alloc

record unpacker =
  fd :: fd_state
  have_next_byte :: bool
  next_byte :: byte

definition Unpacker :: "fd_state \<Rightarrow> unpacker" where
  "Unpacker s = \<lparr>fd = s, have_next_byte = False, next_byte = 0\<rparr>"

text \<open>
  A member function either returns a value or throws, and leaves the unpacker in a new
  state in both cases; a call that never returns has the value \<open>None\<close>.
\<close>

type_synonym 'a outcome = "((thrown + 'a) \<times> unpacker) option"

definition and_then :: "'a outcome \<Rightarrow> ('a \<Rightarrow> unpacker \<Rightarrow> 'b outcome) \<Rightarrow> 'b outcome" where
  "and_then m f =
     (case m of
        None \<Rightarrow> None
      | Some (Inl e, u) \<Rightarrow> Some (Inl e, u)
      | Some (Inr x, u) \<Rightarrow> f x u)"

definition returns :: "'a \<Rightarrow> unpacker \<Rightarrow> 'a outcome" where
  "returns x u = Some (Inr x, u)"

definition throws :: "string \<Rightarrow> unpacker \<Rightarrow> 'a outcome" where
  "throws msg u = Some (Inl (Unpacker_error msg), u)"

subsection \<open>Byte source\<close>

text \<open>
  The \<^verbatim>\<open>while (bytes > 0)\<close> loop of \<open>read_raw_bytes\<close>; \<open>buf\<close> holds the bytes stored so far.
\<close>

partial_function (option) read_loop ::
  "platform \<Rightarrow> unpacker \<Rightarrow> nat \<Rightarrow> byte list \<Rightarrow> ((thrown + byte list) \<times> unpacker) option"
where
  "read_loop pf u bytes buf =
     (if bytes > 0 then
        (case sys_read (fd u) bytes of
           (Failed e, s) \<Rightarrow>
             (if e = EINTR then read_loop pf (u\<lparr>fd := s\<rparr>) bytes buf
              else Some (Inl (Unpacker_error (''Read from stream failed: '' @ strerror pf e)),
                         u\<lparr>fd := s\<rparr>))
         | (Got bs, s) \<Rightarrow> read_loop pf (u\<lparr>fd := s\<rparr>) (bytes - length bs) (buf @ bs))
      else Some (Inr buf, u))"

declare read_loop.simps [code]

definition read_raw_bytes :: "platform \<Rightarrow> nat \<Rightarrow> unpacker \<Rightarrow> byte list outcome" where
  "read_raw_bytes pf bytes u =
     (if have_next_byte u \<and> bytes > 0
      then read_loop pf (u\<lparr>have_next_byte := False\<rparr>) (bytes - 1) [next_byte u]
      else read_loop pf u bytes [])"

text \<open>
  \<open>peek\<close> passes \<^verbatim>\<open>&next_byte\<close> as the buffer of a read of one byte: the byte read is
  stored there (\<open>be_value\<close> of a list of one byte is that byte).
\<close>

definition peek :: "platform \<Rightarrow> unpacker \<Rightarrow> byte outcome" where
  "peek pf u =
     (if \<not> have_next_byte u then
        and_then (read_raw_bytes pf 1 u)
          (\<lambda>bs u'. let u'' = u'\<lparr>next_byte := be_value bs, have_next_byte := True\<rparr>
                   in returns (next_byte u'') u'')
      else returns (next_byte u) u)"

text \<open>
  \<^verbatim>\<open>read_raw<T>\<close> for a type of \<open>LENGTH('a)\<close> bits: \<^verbatim>\<open>sizeof(T)\<close> bytes are read into
  the object, whose value is then what the host makes of them.
\<close>

definition read_raw :: "platform \<Rightarrow> unpacker \<Rightarrow> ('a::len word) outcome" where
  "read_raw pf u =
     and_then (read_raw_bytes pf (LENGTH('a) div 8) u) (\<lambda>bs. returns (native_value pf bs))"


subsection \<open>Type codes and messages\<close>

text \<open>
  Modelled from the spec: type_codes.h is missing; the values are those of the dispatch
  table in section 4.2 of the spec.
\<close>

abbreviation (input) MSGPACK_POSITIVE_FIXNUM_MIN :: byte where "MSGPACK_POSITIVE_FIXNUM_MIN \<equiv> 0x00"
abbreviation (input) MSGPACK_POSITIVE_FIXNUM_MAX :: byte where "MSGPACK_POSITIVE_FIXNUM_MAX \<equiv> 0x7F"
abbreviation (input) MSGPACK_NEGATIVE_FIXNUM_MIN :: byte where "MSGPACK_NEGATIVE_FIXNUM_MIN \<equiv> 0xE0"
abbreviation (input) MSGPACK_NEGATIVE_FIXNUM_MAX :: byte where "MSGPACK_NEGATIVE_FIXNUM_MAX \<equiv> 0xFF"
abbreviation (input) MSGPACK_FIXMAP_MIN :: byte where "MSGPACK_FIXMAP_MIN \<equiv> 0x80"
abbreviation (input) MSGPACK_FIXMAP_MAX :: byte where "MSGPACK_FIXMAP_MAX \<equiv> 0x8F"
abbreviation (input) MSGPACK_FIXARRAY_MIN :: byte where "MSGPACK_FIXARRAY_MIN \<equiv> 0x90"
abbreviation (input) MSGPACK_FIXARRAY_MAX :: byte where "MSGPACK_FIXARRAY_MAX \<equiv> 0x9F"
abbreviation (input) MSGPACK_NIL :: byte where "MSGPACK_NIL \<equiv> 0xC0"
abbreviation (input) MSGPACK_FALSE :: byte where "MSGPACK_FALSE \<equiv> 0xC2"
abbreviation (input) MSGPACK_TRUE :: byte where "MSGPACK_TRUE \<equiv> 0xC3"
abbreviation (input) MSGPACK_FLOAT :: byte where "MSGPACK_FLOAT \<equiv> 0xCA"
abbreviation (input) MSGPACK_DOUBLE :: byte where "MSGPACK_DOUBLE \<equiv> 0xCB"
abbreviation (input) MSGPACK_UINT8 :: byte where "MSGPACK_UINT8 \<equiv> 0xCC"
abbreviation (input) MSGPACK_UINT16 :: byte where "MSGPACK_UINT16 \<equiv> 0xCD"
abbreviation (input) MSGPACK_UINT32 :: byte where "MSGPACK_UINT32 \<equiv> 0xCE"
abbreviation (input) MSGPACK_UINT64 :: byte where "MSGPACK_UINT64 \<equiv> 0xCF"
abbreviation (input) MSGPACK_INT8 :: byte where "MSGPACK_INT8 \<equiv> 0xD0"
abbreviation (input) MSGPACK_INT16 :: byte where "MSGPACK_INT16 \<equiv> 0xD1"
abbreviation (input) MSGPACK_INT32 :: byte where "MSGPACK_INT32 \<equiv> 0xD2"
abbreviation (input) MSGPACK_INT64 :: byte where "MSGPACK_INT64 \<equiv> 0xD3"
abbreviation (input) MSGPACK_ARRAY16 :: byte where "MSGPACK_ARRAY16 \<equiv> 0xDC"
abbreviation (input) MSGPACK_ARRAY32 :: byte where "MSGPACK_ARRAY32 \<equiv> 0xDD"
abbreviation (input) MSGPACK_MAP16 :: byte where "MSGPACK_MAP16 \<equiv> 0xDE"
abbreviation (input) MSGPACK_MAP32 :: byte where "MSGPACK_MAP32 \<equiv> 0xDF"

text \<open>
  Modelled from the spec: to_string.h is missing; the spec says that a decode failure
  refers to the numeric value of the tag (193 for the tag 0xC1), so \<open>to_string\<close> writes an
  \<^verbatim>\<open>int\<close> in decimal.
\<close>

fun digits :: "nat \<Rightarrow> string" where
  "digits n =
     (if n < 10 then [''0123456789'' ! n]
      else digits (n div 10) @ [''0123456789'' ! (n mod 10)])"

declare digits.simps [simp del]

definition to_string :: "int \<Rightarrow> string" where
  "to_string i = (if i < 0 then CHR ''-'' # digits (nat (- i)) else digits (nat i))"

text \<open>
  The text of a decode failure for the tag \<open>leader\<close>. Before throwing, the source calls
  \<^verbatim>\<open>backtrace()\<close> (backtrace.h, missing), which prints diagnostics and does not touch the
  unpacker; it is left out.
\<close>

definition dont_know :: "byte \<Rightarrow> string \<Rightarrow> string" where
  "dont_know leader what =
     ''Don't know how to convert MessagePack type '' @ to_string (uint leader) @ what"

subsection \<open>Nil, array and map headers\<close>

definition next_is_nil :: "platform \<Rightarrow> unpacker \<Rightarrow> bool outcome" where
  "next_is_nil pf u = and_then (peek pf u) (\<lambda>b. returns (b = MSGPACK_NIL))"

definition next_nil :: "platform \<Rightarrow> unpacker \<Rightarrow> unit outcome" where
  "next_nil pf u =
     and_then (read_raw pf u)
       (\<lambda>leader u. if leader \<noteq> MSGPACK_NIL then throws (dont_know leader '' to nil'') u
                   else returns () u)"

text \<open>The lengths are \<^verbatim>\<open>size_t\<close> values, taken to hold at least 32 bits.\<close>

definition next_array_length :: "platform \<Rightarrow> unpacker \<Rightarrow> nat outcome" where
  "next_array_length pf u =
     and_then (read_raw pf u)
       (\<lambda>leader u.
          if leader \<ge> MSGPACK_FIXARRAY_MIN \<and> leader \<le> MSGPACK_FIXARRAY_MAX
          then returns (unat (leader AND 15)) u
          else if leader = MSGPACK_ARRAY16
          then and_then (read_raw pf u) (\<lambda>x. returns (unat (ntohs pf x)))
          else if leader = MSGPACK_ARRAY32
          then and_then (read_raw pf u) (\<lambda>x. returns (unat (ntohl pf x)))
          else throws (dont_know leader '' to array'') u)"

definition next_map_length :: "platform \<Rightarrow> unpacker \<Rightarrow> nat outcome" where
  "next_map_length pf u =
     and_then (read_raw pf u)
       (\<lambda>leader u.
          if leader \<ge> MSGPACK_FIXMAP_MIN \<and> leader \<le> MSGPACK_FIXMAP_MAX
          then returns (unat (leader AND 15)) u
          else if leader = MSGPACK_MAP16
          then and_then (read_raw pf u) (\<lambda>x. returns (unat (ntohs pf x)))
          else if leader = MSGPACK_MAP32
          then and_then (read_raw pf u) (\<lambda>x. returns (unat (ntohl pf x)))
          else throws (dont_know leader '' to map'') u)"

subsection \<open>Numbers\<close>

text \<open>
  The template parameter \<open>T\<close> of \<^verbatim>\<open>operator >>(Unpacker&, T&)\<close>: the conversions
  \<^verbatim>\<open>(T) x\<close> from each type that the operator reads, and \<^verbatim>\<open>typeid(T).name()\<close>. A \<^verbatim>\<open>float\<close>
  or \<^verbatim>\<open>double\<close> object is represented by the 32 or 64 bits of its object representation.
  \<^verbatim>\<open>ntohs\<close> and \<^verbatim>\<open>ntohl\<close> return \<^verbatim>\<open>uint16_t\<close> and \<^verbatim>\<open>uint32_t\<close>, also where the
  argument was read as a signed type.
\<close>

record 't target =
  type_name :: string
  from_uint8 :: "8 word \<Rightarrow> 't"
  from_int8 :: "8 word \<Rightarrow> 't"
  from_bool :: "bool \<Rightarrow> 't"
  from_float :: "32 word \<Rightarrow> 't"
  from_double :: "64 word \<Rightarrow> 't"
  from_uint16 :: "16 word \<Rightarrow> 't"
  from_uint32 :: "32 word \<Rightarrow> 't"
  from_uint64 :: "64 word \<Rightarrow> 't"

definition unpack :: "platform \<Rightarrow> 't target \<Rightarrow> unpacker \<Rightarrow> 't outcome" where
  "unpack pf T u =
     and_then (read_raw pf u)
       (\<lambda>leader u.
          if leader \<ge> MSGPACK_POSITIVE_FIXNUM_MIN \<and> leader \<le> MSGPACK_POSITIVE_FIXNUM_MAX
          then returns (from_uint8 T leader) u
          else if leader \<ge> MSGPACK_NEGATIVE_FIXNUM_MIN \<and> leader \<le> MSGPACK_NEGATIVE_FIXNUM_MAX
          then returns (from_int8 T leader) u
          else if leader = MSGPACK_FALSE then returns (from_bool T False) u
          else if leader = MSGPACK_TRUE then returns (from_bool T True) u
          else if leader = MSGPACK_FLOAT
          then and_then (read_raw pf u) (\<lambda>x. returns (from_float T x))
          else if leader = MSGPACK_DOUBLE
          then and_then (read_raw pf u) (\<lambda>x. returns (from_double T x))
          else if leader = MSGPACK_UINT8
          then and_then (read_raw pf u) (\<lambda>x. returns (from_uint8 T x))
          else if leader = MSGPACK_UINT16
          then and_then (read_raw pf u) (\<lambda>x. returns (from_uint16 T (ntohs pf x)))
          else if leader = MSGPACK_UINT32
          then and_then (read_raw pf u) (\<lambda>x. returns (from_uint32 T (ntohl pf x)))
          else if leader = MSGPACK_UINT64
          then and_then (read_raw pf u) (\<lambda>x. returns (from_uint64 T (ntohll pf x)))
          else if leader = MSGPACK_INT8
          then and_then (read_raw pf u) (\<lambda>x. returns (from_int8 T x))
          else if leader = MSGPACK_INT16
          then and_then (read_raw pf u) (\<lambda>x. returns (from_uint16 T (ntohs pf x)))
          else if leader = MSGPACK_INT32
          then and_then (read_raw pf u) (\<lambda>x. returns (from_uint32 T (ntohl pf x)))
          else if leader = MSGPACK_INT64
          then and_then (read_raw pf u) (\<lambda>x. returns (from_uint64 T (ntohll pf x)))
          else throws (dont_know leader ('' to type '' @ type_name T)) u)"

text \<open>
  \<open>T\<close> an integer type of \<open>LENGTH('a)\<close> bits, signed or unsigned (the bits of the result
  are the same; \<open>unat\<close> reads them as unsigned, \<open>sint\<close> as signed). The conversions from
  \<^verbatim>\<open>float\<close> and \<^verbatim>\<open>double\<close> are the compiler's and are parameters.
\<close>

definition integer_type ::
  "string \<Rightarrow> (32 word \<Rightarrow> 'a word) \<Rightarrow> (64 word \<Rightarrow> 'a word) \<Rightarrow> ('a::len word) target" where
  "integer_type name conv_float conv_double =
     \<lparr>type_name = name, from_uint8 = ucast, from_int8 = scast,
      from_bool = (\<lambda>b. if b then 1 else 0), from_float = conv_float, from_double = conv_double,
      from_uint16 = ucast, from_uint32 = ucast, from_uint64 = ucast\<rparr>"

text \<open>
  \<open>T = float\<close> and \<open>T = double\<close>: the conversion from the type itself changes nothing; the
  conversions from integers and between the two widths are the compiler's and are
  parameters.
\<close>

definition float_type ::
  "string \<Rightarrow> (int \<Rightarrow> 32 word) \<Rightarrow> (64 word \<Rightarrow> 32 word) \<Rightarrow> (32 word) target" where
  "float_type name conv_int conv_double =
     \<lparr>type_name = name, from_uint8 = (\<lambda>x. conv_int (uint x)), from_int8 = (\<lambda>x. conv_int (sint x)),
      from_bool = (\<lambda>b. conv_int (if b then 1 else 0)), from_float = (\<lambda>x. x),
      from_double = conv_double, from_uint16 = (\<lambda>x. conv_int (uint x)),
      from_uint32 = (\<lambda>x. conv_int (uint x)), from_uint64 = (\<lambda>x. conv_int (uint x))\<rparr>"

definition double_type ::
  "string \<Rightarrow> (int \<Rightarrow> 64 word) \<Rightarrow> (32 word \<Rightarrow> 64 word) \<Rightarrow> (64 word) target" where
  "double_type name conv_int conv_float =
     \<lparr>type_name = name, from_uint8 = (\<lambda>x. conv_int (uint x)), from_int8 = (\<lambda>x. conv_int (sint x)),
      from_bool = (\<lambda>b. conv_int (if b then 1 else 0)), from_float = conv_float,
      from_double = (\<lambda>x. x), from_uint16 = (\<lambda>x. conv_int (uint x)),
      from_uint32 = (\<lambda>x. conv_int (uint x)), from_uint64 = (\<lambda>x. conv_int (uint x))\<rparr>"

subsection \<open>Strings and vectors\<close>



text \<open>
  \<^verbatim>\<open>next<T>()\<close> declares a value, applies the \<^verbatim>\<open>operator >>\<close> of its type, and returns the
  value; the operator is the argument \<open>dec\<close>.
\<close>

definition next_value :: "(unpacker \<Rightarrow> 'a outcome) \<Rightarrow> unpacker \<Rightarrow> 'a outcome" where
  "next_value dec u = and_then (dec u) returns"

text \<open>
  The vector that the operator fills, as far as \<^verbatim>\<open>obj.reserve(array_length)\<close> depends on
  it: \<^verbatim>\<open>max_size()\<close>, the capacity that \<open>obj\<close> has when the operator is called
  (\<^verbatim>\<open>clear()\<close> keeps it), and whether the allocator can give storage for \<open>n\<close> elements.
  \<^verbatim>\<open>reserve(n)\<close> throws \<^verbatim>\<open>std::length_error\<close> when \<open>n\<close> exceeds \<^verbatim>\<open>max_size()\<close>, changes
  nothing when \<open>n\<close> is within the capacity, and throws \<^verbatim>\<open>std::bad_alloc\<close> when new storage
  is needed and cannot be had. It does not touch the unpacker.
\<close>

record storage =
  max_size :: nat
  capacity :: nat
  can_allocate :: "nat \<Rightarrow> bool"

definition reserve :: "storage \<Rightarrow> nat \<Rightarrow> unpacker \<Rightarrow> unit outcome" where
  "reserve st n u =
     (if n > max_size st then Some (Inl Length_error, u)
      else if n > capacity st \<and> \<not> can_allocate st n then Some (Inl Bad_alloc, u)
      else returns () u)"

text \<open>
  The loop \<^verbatim>\<open>while (array_length--) obj.push_back(unpacker.next<T>())\<close>; after a
  \<^verbatim>\<open>reserve\<close> that returned, the vector grows within its capacity.
\<close>

fun unpack_elements ::
  "(unpacker \<Rightarrow> 'a outcome) \<Rightarrow> nat \<Rightarrow> 'a list \<Rightarrow> unpacker \<Rightarrow> 'a list outcome" where
  "unpack_elements dec 0 obj u = returns obj u"
| "unpack_elements dec (Suc array_length) obj u =
     and_then (next_value dec u) (\<lambda>x. unpack_elements dec array_length (obj @ [x]))"

text \<open>
  The vector operator: \<^verbatim>\<open>next_array_length()\<close>, \<^verbatim>\<open>obj.clear()\<close>,
  \<^verbatim>\<open>obj.reserve(array_length)\<close>, and the loop.
\<close>

definition unpack_vector ::
  "storage \<Rightarrow> (unpacker \<Rightarrow> 'a outcome) \<Rightarrow> platform \<Rightarrow> unpacker \<Rightarrow> 'a list outcome" where
  "unpack_vector st dec pf u =
     and_then (next_array_length pf u)
       (\<lambda>array_length u.
          and_then (reserve st array_length u)
            (\<lambda>_. unpack_elements dec array_length []))"

text \<open>
  The map operator (\<^verbatim>\<open>operator >>(Unpacker&, std::map<K, V>&)\<close>) has no definition
  here: it calls \<^verbatim>\<open>obj.reserve(map_length)\<close>, and \<^verbatim>\<open>std::map\<close> has no member
  \<^verbatim>\<open>reserve\<close>, so the template has no well-formed instance and no run to describe.
\<close>

section \<open>Notions used in the statements\<close>

text \<open>The bytes that the events of a stream hold, in order.\<close>

fun data_of :: "event list \<Rightarrow> byte list" where
  "data_of [] = []"
| "data_of (Chunk b bs # es) = b # bs @ data_of es"
| "data_of (Error e # es) = data_of es"

text \<open>A failure other than an interruption.\<close>

fun hard_error :: "event \<Rightarrow> bool" where
  "hard_error (Error (Errno k)) = True"
| "hard_error _ = False"

definition interruptions_only :: "event list \<Rightarrow> bool" where
  "interruptions_only es = list_all (\<lambda>e. \<not> hard_error e) es"

text \<open>
  The bytes buffered ahead of the descriptor, and the logical stream: the bytes that the
  caller has not consumed yet.
\<close>

definition lookahead :: "unpacker \<Rightarrow> byte list" where
  "lookahead u = (if have_next_byte u then [next_byte u] else [])"

definition unread :: "unpacker \<Rightarrow> byte list" where
  "unread u = lookahead u @ data_of (pending (fd u))"

text \<open>The unpacker after one more call of \<^verbatim>\<open>::read\<close> that leaves the events \<open>es\<close>.\<close>

definition after_read :: "unpacker \<Rightarrow> event list \<Rightarrow> unpacker" where
  "after_read u es = u\<lparr>fd := (fd u)\<lparr>pending := es, read_calls := Suc (read_calls (fd u))\<rparr>\<rparr>"

text \<open>A little-endian host, and an unpacker on a fresh descriptor, for the examples.\<close>

definition example_host :: platform where
  "example_host =
     \<lparr>little_endian = True,
      strerror = (\<lambda>e. case e of EINTR \<Rightarrow> ''Interrupted system call''
                       | Errno k \<Rightarrow> if k = 5 then ''Input/output error''
                                   else ''Unknown error '' @ digits k)\<rparr>"

definition on_stream :: "event list \<Rightarrow> unpacker" where
  "on_stream es = Unpacker \<lparr>pending = es, read_calls = 0\<rparr>"

text \<open>
  What the spec says of the vector, to compare the loop with: \<open>n\<close> decodes one after the
  other, the values in the order of the stream.
\<close>

fun decode_seq :: "(unpacker \<Rightarrow> 'a outcome) \<Rightarrow> nat \<Rightarrow> unpacker \<Rightarrow> 'a list outcome" where
  "decode_seq dec 0 u = returns [] u"
| "decode_seq dec (Suc n) u =
     and_then (dec u) (\<lambda>x u. and_then (decode_seq dec n u) (\<lambda>xs. returns (x # xs)))"

text \<open>
  A vector of the examples: empty, with \<^verbatim>\<open>max_size()\<close> of \<open>2^61 - 1\<close> elements, for which the
  allocator can give storage for up to \<open>2^20\<close> elements.
\<close>

definition example_storage :: storage where
  "example_storage =
     \<lparr>max_size = 2305843009213693951, capacity = 0, can_allocate = (\<lambda>n. n \<le> 1048576)\<rparr>"

text \<open>
  The target types of the examples: \<^verbatim>\<open>int\<close> of 32 bits, \<^verbatim>\<open>float\<close> and \<^verbatim>\<open>double\<close>. The
  conversions between integers and floating point play no part in the examples.
\<close>

definition example_int :: "32 word target" where
  "example_int = integer_type ''i'' (\<lambda>x. 0) (\<lambda>x. 0)"

definition example_float :: "32 word target" where
  "example_float = float_type ''f'' (\<lambda>x. 0) (\<lambda>x. 0)"

definition example_double :: "64 word target" where
  "example_double = double_type ''d'' (\<lambda>x. 0) (\<lambda>x. 0)"

section \<open>The read loop\<close>

lemma read_loop_done: "read_loop pf u 0 buf = Some (Inr buf, u)"
  by (subst read_loop.simps) simp

lemma read_loop_eof_step:
  "pending (fd u) = [] \<Longrightarrow> 0 < n \<Longrightarrow>
   read_loop pf u n buf =
     read_loop pf (u\<lparr>fd := (fd u)\<lparr>read_calls := Suc (read_calls (fd u))\<rparr>\<rparr>) n buf"
  by (subst read_loop.simps) (simp add: sys_read_def)

lemma read_loop_interrupted:
  "pending (fd u) = Error EINTR # rest \<Longrightarrow> 0 < n \<Longrightarrow>
   read_loop pf u n buf = read_loop pf (after_read u rest) n buf"
  by (subst read_loop.simps) (simp add: sys_read_def after_read_def)

lemma read_loop_failed:
  "pending (fd u) = Error (Errno k) # rest \<Longrightarrow> 0 < n \<Longrightarrow>
   read_loop pf u n buf =
     Some (Inl (Unpacker_error (''Read from stream failed: '' @ strerror pf (Errno k))),
           after_read u rest)"
  by (subst read_loop.simps) (simp add: sys_read_def after_read_def)

lemma read_loop_chunk_all:
  "pending (fd u) = Chunk b bs # rest \<Longrightarrow> Suc (length bs) \<le> n \<Longrightarrow>
   read_loop pf u n buf = read_loop pf (after_read u rest) (n - Suc (length bs)) (buf @ b # bs)"
  by (subst read_loop.simps) (simp add: sys_read_def after_read_def)

lemma read_loop_chunk_part:
  "pending (fd u) = Chunk b bs # rest \<Longrightarrow> 0 < n \<Longrightarrow> n < Suc (length bs) \<Longrightarrow>
   read_loop pf u n buf =
     Some (Inr (buf @ take n (b # bs)),
           after_read u (Chunk (hd (drop n (b # bs))) (tl (drop n (b # bs))) # rest))"
  apply (subst read_loop.simps)
  apply (cases "drop n (b # bs)")
   apply (simp_all add: sys_read_def after_read_def read_loop_done min_def)
  done

lemma after_read_simps [simp]:
  "pending (fd (after_read u es)) = es"
  "have_next_byte (after_read u es) = have_next_byte u"
  "next_byte (after_read u es) = next_byte u"
  "read_calls (fd (after_read u es)) = Suc (read_calls (fd u))"
  by (simp_all add: after_read_def)

lemma data_of_append [simp]: "data_of (xs @ ys) = data_of xs @ data_of ys"
  by (induction xs rule: data_of.induct) simp_all

lemma interruptions_only_simps [simp]:
  "interruptions_only []"
  "interruptions_only (Chunk b bs # es) = interruptions_only es"
  "interruptions_only (Error e # es) = (e = EINTR \<and> interruptions_only es)"
  "interruptions_only (xs @ ys) = (interruptions_only xs \<and> interruptions_only ys)"
  by (cases e; simp add: interruptions_only_def)+

text \<open>At the end of the stream the loop never returns: no result is possible.\<close>

lemma read_loop_eof_no_result:
  assumes "read_loop pf u bytes buf = Some y"
  shows "\<not> (pending (fd u) = [] \<and> bytes > 0)"
  by (rule read_loop.raw_induct
        [where P = "\<lambda>pf u bytes buf y. \<not> (pending (fd u) = [] \<and> bytes > 0)", OF _ assms])
     (fastforce simp: sys_read_def split: if_splits)

lemma read_loop_eof: "pending (fd u) = [] \<Longrightarrow> bytes > 0 \<Longrightarrow> read_loop pf u bytes buf = None"
  using read_loop_eof_no_result [of pf u bytes buf] by (cases "read_loop pf u bytes buf") auto

text \<open>A stream that ends, without a failure, before \<open>n\<close> bytes have come.\<close>

lemma read_loop_starved:
  "pending (fd u) = es \<Longrightarrow> interruptions_only es \<Longrightarrow> length (data_of es) < n \<Longrightarrow>
   read_loop pf u n buf = None"
proof (induction es arbitrary: u n buf)
  case Nil
  then show ?case by (simp add: read_loop_eof)
next
  case (Cons e es)
  show ?case
  proof (cases e)
    case (Chunk b bs)
    with Cons.prems have
      "read_loop pf u n buf = read_loop pf (after_read u es) (n - Suc (length bs)) (buf @ b # bs)"
      by (intro read_loop_chunk_all) auto
    also have "\<dots> = None"
      using Cons.prems Chunk by (intro Cons.IH) auto
    finally show ?thesis .
  next
    case (Error x)
    with Cons.prems have x: "x = EINTR" by simp
    with Cons.prems Error have "read_loop pf u n buf = read_loop pf (after_read u es) n buf"
      by (intro read_loop_interrupted) auto
    also have "\<dots> = None"
      using Cons.prems Error by (intro Cons.IH) auto
    finally show ?thesis .
  qed
qed

text \<open>A stream whose first events, interruptions apart, hold the \<open>n\<close> bytes.\<close>

lemma read_loop_supplied:
  "pending (fd u) = pre @ rest \<Longrightarrow> interruptions_only pre \<Longrightarrow> n \<le> length (data_of pre) \<Longrightarrow>
   \<exists>u'. read_loop pf u n buf = Some (Inr (buf @ take n (data_of pre)), u')
       \<and> data_of (pending (fd u')) = drop n (data_of pre) @ data_of rest
       \<and> have_next_byte u' = have_next_byte u \<and> next_byte u' = next_byte u
       \<and> (interruptions_only rest \<longrightarrow> interruptions_only (pending (fd u')))"
proof (induction pre arbitrary: u n buf)
  case Nil
  then show ?case by (simp add: read_loop_done)
next
  case (Cons e es)
  show ?case
  proof (cases "n = 0")
    case True
    with Cons.prems show ?thesis by (cases e) (auto simp add: read_loop_done)
  next
    case False
    then have pos: "0 < n" by simp
    show ?thesis
    proof (cases e)
      case (Chunk b bs)
      show ?thesis
      proof (cases "Suc (length bs) \<le> n")
        case True
        let ?u = "after_read u (es @ rest)"
        have step: "read_loop pf u n buf = read_loop pf ?u (n - Suc (length bs)) (buf @ b # bs)"
          using Cons.prems(1) Chunk True by (intro read_loop_chunk_all) auto
        have "\<exists>u'. read_loop pf ?u (n - Suc (length bs)) (buf @ b # bs)
                   = Some (Inr ((buf @ b # bs) @ take (n - Suc (length bs)) (data_of es)), u')
              \<and> data_of (pending (fd u')) = drop (n - Suc (length bs)) (data_of es) @ data_of rest
              \<and> have_next_byte u' = have_next_byte ?u \<and> next_byte u' = next_byte ?u
              \<and> (interruptions_only rest \<longrightarrow> interruptions_only (pending (fd u')))"
          using Cons.prems Chunk True by (intro Cons.IH) auto
        then show ?thesis
          using step Chunk True by (auto simp: take_Cons' drop_Cons')
      next
        case False
        then have "read_loop pf u n buf =
          Some (Inr (buf @ take n (b # bs)),
                after_read u (Chunk (hd (drop n (b # bs))) (tl (drop n (b # bs))) # es @ rest))"
          using Cons.prems(1) Chunk pos by (intro read_loop_chunk_part) auto
        moreover have "drop n (b # bs) \<noteq> []" using False by simp
        ultimately show ?thesis
          using Chunk False Cons.prems by (auto simp: take_Cons' drop_Cons')
      qed
    next
      case (Error x)
      with Cons.prems have x: "x = EINTR" by simp
      let ?u = "after_read u (es @ rest)"
      have step: "read_loop pf u n buf = read_loop pf ?u n buf"
        using Cons.prems(1) Error x pos by (intro read_loop_interrupted) auto
      have "\<exists>u'. read_loop pf ?u n buf = Some (Inr (buf @ take n (data_of es)), u')
              \<and> data_of (pending (fd u')) = drop n (data_of es) @ data_of rest
              \<and> have_next_byte u' = have_next_byte ?u \<and> next_byte u' = next_byte ?u
              \<and> (interruptions_only rest \<longrightarrow> interruptions_only (pending (fd u')))"
        using Cons.prems Error by (intro Cons.IH) auto
      then show ?thesis using step Error by auto
    qed
  qed
qed

text \<open>A stream that fails before the \<open>n\<close> bytes have come.\<close>

lemma read_loop_aborted:
  "pending (fd u) = pre @ Error (Errno k) # rest \<Longrightarrow> interruptions_only pre \<Longrightarrow>
   length (data_of pre) < n \<Longrightarrow>
   \<exists>u'. read_loop pf u n buf =
     Some (Inl (Unpacker_error (''Read from stream failed: '' @ strerror pf (Errno k))), u')"
proof (induction pre arbitrary: u n buf)
  case Nil
  then show ?case by (simp add: read_loop_failed)
next
  case (Cons e es)
  show ?case
  proof (cases e)
    case (Chunk b bs)
    let ?u = "after_read u (es @ Error (Errno k) # rest)"
    have "read_loop pf u n buf = read_loop pf ?u (n - Suc (length bs)) (buf @ b # bs)"
      using Cons.prems Chunk by (intro read_loop_chunk_all) auto
    moreover have "\<exists>u'. read_loop pf ?u (n - Suc (length bs)) (buf @ b # bs) =
      Some (Inl (Unpacker_error (''Read from stream failed: '' @ strerror pf (Errno k))), u')"
      using Cons.prems Chunk by (intro Cons.IH) auto
    ultimately show ?thesis by simp
  next
    case (Error x)
    with Cons.prems have x: "x = EINTR" by simp
    let ?u = "after_read u (es @ Error (Errno k) # rest)"
    have "read_loop pf u n buf = read_loop pf ?u n buf"
      using Cons.prems Error x by (intro read_loop_interrupted) auto
    moreover have "\<exists>u'. read_loop pf ?u n buf =
      Some (Inl (Unpacker_error (''Read from stream failed: '' @ strerror pf (Errno k))), u')"
      using Cons.prems Error by (intro Cons.IH) auto
    ultimately show ?thesis by simp
  qed
qed

text \<open>Whatever the stream: when the loop returns, it returns the next \<open>n\<close> bytes.\<close>

lemma read_loop_returned:
  assumes "read_loop pf u n buf = Some y"
  shows "case y of
           (Inr out, u') \<Rightarrow>
              out = buf @ take n (data_of (pending (fd u)))
            \<and> n \<le> length (data_of (pending (fd u)))
            \<and> data_of (pending (fd u')) = drop n (data_of (pending (fd u)))
            \<and> have_next_byte u' = have_next_byte u \<and> next_byte u' = next_byte u
         | (Inl e, u') \<Rightarrow> True"
  apply (rule read_loop.raw_induct
      [where P = "\<lambda>pf u n buf y. case y of
           (Inr out, u') \<Rightarrow>
              out = buf @ take n (data_of (pending (fd u)))
            \<and> n \<le> length (data_of (pending (fd u)))
            \<and> data_of (pending (fd u')) = drop n (data_of (pending (fd u)))
            \<and> have_next_byte u' = have_next_byte u \<and> next_byte u' = next_byte u
         | (Inl e, u') \<Rightarrow> True", OF _ assms])
  subgoal for rl pf u n buf y
    apply (cases "pending (fd u)")
     apply (fastforce simp: sys_read_def split: if_splits sum.splits prod.splits)
    subgoal for e es
      apply (cases e)
       apply (fastforce simp: sys_read_def take_Cons' drop_Cons'
                        split: if_splits sum.splits prod.splits list.splits)
      apply (fastforce simp: sys_read_def split: if_splits sum.splits prod.splits)
      done
    done
  done

section \<open>The byte source\<close>

lemma and_then_returned:
  "and_then m f = Some (Inr y, u')
   \<longleftrightarrow> (\<exists>x u1. m = Some (Inr x, u1) \<and> f x u1 = Some (Inr y, u'))"
  by (auto simp: and_then_def split: option.splits sum.splits prod.splits)

lemma and_then_Some_Inr [simp]: "and_then (Some (Inr x, u)) f = f x u"
  by (simp add: and_then_def)

lemma and_then_Some_Inl [simp]: "and_then (Some (Inl e, u)) f = Some (Inl e, u)"
  by (simp add: and_then_def)

lemma and_then_None [simp]: "and_then None f = None"
  by (simp add: and_then_def)

lemma and_then_returns [simp]: "and_then (returns x u) f = f x u"
  by (simp add: and_then_def returns_def)

lemma read_raw_bytes_supplied:
  assumes "pending (fd u) = pre @ rest" "interruptions_only pre"
    "n \<le> length (lookahead u @ data_of pre)"
  shows "\<exists>u'. read_raw_bytes pf n u = Some (Inr (take n (lookahead u @ data_of pre)), u')
       \<and> unread u' = drop n (lookahead u @ data_of pre) @ data_of rest
       \<and> (interruptions_only rest \<longrightarrow> interruptions_only (pending (fd u')))"
proof (cases "have_next_byte u \<and> 0 < n")
  case True
  let ?u = "u\<lparr>have_next_byte := False\<rparr>"
  have "\<exists>u'. read_loop pf ?u (n - 1) [next_byte u]
            = Some (Inr ([next_byte u] @ take (n - 1) (data_of pre)), u')
       \<and> data_of (pending (fd u')) = drop (n - 1) (data_of pre) @ data_of rest
       \<and> have_next_byte u' = have_next_byte ?u \<and> next_byte u' = next_byte ?u
       \<and> (interruptions_only rest \<longrightarrow> interruptions_only (pending (fd u')))"
    using assms True by (intro read_loop_supplied) (auto simp: lookahead_def)
  then show ?thesis
    using True by (auto simp: read_raw_bytes_def lookahead_def unread_def take_Cons' drop_Cons')
next
  case False
  have "\<exists>u'. read_loop pf u n [] = Some (Inr ([] @ take n (data_of pre)), u')
       \<and> data_of (pending (fd u')) = drop n (data_of pre) @ data_of rest
       \<and> have_next_byte u' = have_next_byte u \<and> next_byte u' = next_byte u
       \<and> (interruptions_only rest \<longrightarrow> interruptions_only (pending (fd u')))"
    using assms False by (intro read_loop_supplied) (auto simp: lookahead_def)
  then show ?thesis
    using False assms by (auto simp: read_raw_bytes_def lookahead_def unread_def)
qed


lemma read_raw_bytes_returned:
  assumes "read_raw_bytes pf n u = Some (Inr out, u')"
  shows "out = take n (unread u) \<and> n \<le> length (unread u) \<and> unread u' = drop n (unread u)
       \<and> (0 < n \<longrightarrow> \<not> have_next_byte u')"
proof (cases "have_next_byte u \<and> 0 < n")
  case True
  with assms have
    "read_loop pf (u\<lparr>have_next_byte := False\<rparr>) (n - 1) [next_byte u] = Some (Inr out, u')"
    by (simp add: read_raw_bytes_def)
  from read_loop_returned [OF this] True show ?thesis
    by (auto simp: unread_def lookahead_def take_Cons' drop_Cons')
next
  case False
  with assms have "read_loop pf u n [] = Some (Inr out, u')"
    by (auto simp add: read_raw_bytes_def)
  from read_loop_returned [OF this] False show ?thesis
    by (auto simp: unread_def lookahead_def)
qed

lemma read_raw_bytes_starved:
  assumes "interruptions_only (pending (fd u))" "length (unread u) < n"
  shows "read_raw_bytes pf n u = None"
  using assms
  by (auto simp: read_raw_bytes_def unread_def lookahead_def intro!: read_loop_starved
           split: if_splits)

lemma read_raw_bytes_aborted:
  assumes "pending (fd u) = pre @ Error (Errno k) # rest" "interruptions_only pre"
    "length (lookahead u @ data_of pre) < n"
  shows "\<exists>u'. read_raw_bytes pf n u =
     Some (Inl (Unpacker_error (''Read from stream failed: '' @ strerror pf (Errno k))), u')"
proof (cases "have_next_byte u \<and> 0 < n")
  case True
  then have "read_raw_bytes pf n u
           = read_loop pf (u\<lparr>have_next_byte := False\<rparr>) (n - 1) [next_byte u]"
    by (simp add: read_raw_bytes_def)
  moreover have "\<exists>u'. read_loop pf (u\<lparr>have_next_byte := False\<rparr>) (n - 1) [next_byte u] =
     Some (Inl (Unpacker_error (''Read from stream failed: '' @ strerror pf (Errno k))), u')"
  proof (rule read_loop_aborted)
    show "pending (fd (u\<lparr>have_next_byte := False\<rparr>)) = pre @ Error (Errno k) # rest"
      using assms(1) by simp
    show "interruptions_only pre" by fact
    show "length (data_of pre) < n - 1"
      using assms(3) True by (simp add: lookahead_def)
  qed
  ultimately show ?thesis by (simp only:)
next
  case False
  then have "read_raw_bytes pf n u = read_loop pf u n []"
    by (auto simp add: read_raw_bytes_def)
  moreover have "\<exists>u'. read_loop pf u n [] =
     Some (Inl (Unpacker_error (''Read from stream failed: '' @ strerror pf (Errno k))), u')"
  proof (rule read_loop_aborted)
    show "pending (fd u) = pre @ Error (Errno k) # rest" by fact
    show "interruptions_only pre" by fact
    show "length (data_of pre) < n"
      using assms(3) False by (simp add: lookahead_def split: if_splits)
  qed
  ultimately show ?thesis by (simp only:)
qed

lemma be_value_single [simp]: "be_value [x] = (x :: byte)"
  by (simp add: be_value_def)

lemma native_value_single [simp]: "native_value pf [x] = (x :: byte)"
  by (simp add: native_value_def)

lemma peek_buffered: "have_next_byte u \<Longrightarrow> peek pf u = Some (Inr (next_byte u), u)"
  by (simp add: peek_def returns_def)

lemma peek_returned:
  assumes "peek pf u = Some (Inr b, u')"
  shows "have_next_byte u' \<and> next_byte u' = b
       \<and> (\<exists>rest. unread u = b # rest \<and> unread u' = b # rest)"
proof (cases "have_next_byte u")
  case True
  with assms show ?thesis by (auto simp: peek_def returns_def unread_def lookahead_def)
next
  case False
  with assms have "and_then (read_raw_bytes pf 1 u)
          (\<lambda>bs u'. let u'' = u'\<lparr>next_byte := be_value bs, have_next_byte := True\<rparr>
                   in returns (next_byte u'') u'') = Some (Inr b, u')"
    by (simp add: peek_def)
  then obtain bs u1 where r: "read_raw_bytes pf 1 u = Some (Inr bs, u1)"
    and u': "u' = u1\<lparr>next_byte := be_value bs, have_next_byte := True\<rparr>" and b: "b = be_value bs"
    unfolding and_then_returned by (auto simp: returns_def Let_def)
  from read_raw_bytes_returned [OF r] obtain x rest where "unread u = x # rest" "bs = [x]"
    "unread u1 = rest" "\<not> have_next_byte u1"
    by (cases "unread u") auto
  then show ?thesis using u' b by (auto simp: unread_def lookahead_def)
qed

lemma read_raw_byte_returned:
  assumes "read_raw pf u = Some (Inr (t :: byte), u')"
  shows "unread u = t # unread u' \<and> \<not> have_next_byte u'"
proof -
  from assms obtain bs where r: "read_raw_bytes pf 1 u = Some (Inr bs, u')"
    and t: "t = native_value pf bs"
    unfolding read_raw_def and_then_returned by (auto simp: returns_def)
  from read_raw_bytes_returned [OF r] t show ?thesis
    by (cases "unread u") auto
qed

lemma on_stream_simps [simp]:
  "pending (fd (on_stream es)) = es"
  "have_next_byte (on_stream es) = False"
  "lookahead (on_stream es) = []"
  "unread (on_stream es) = data_of es"
  by (simp_all add: on_stream_def Unpacker_def lookahead_def unread_def)

section \<open>Claims about the byte source\<close>

text \<open>
  C10: when bytes are still outstanding and the underlying read reports the end of the
  stream (it returns 0 bytes), \<open>read_raw_bytes\<close> neither throws nor returns: the loop
  issues the same read again, with the same count and buffer, and has no result. A stream
  that ends, without a failure, before the requested bytes have come gives no result, and
  whenever the call returns, the stream has supplied all \<open>n\<close> bytes.
\<close>

theorem read_raw_bytes_end_of_stream:
  "(pending (fd u) = [] \<and> 0 < n \<longrightarrow>
      read_loop pf u n buf
        = read_loop pf (u\<lparr>fd := (fd u)\<lparr>read_calls := Suc (read_calls (fd u))\<rparr>\<rparr>) n buf
    \<and> read_loop pf u n buf = None)
   \<and> (interruptions_only (pending (fd u)) \<and> length (unread u) < n \<longrightarrow>
        read_raw_bytes pf n u = None)
   \<and> (\<forall>out u'. read_raw_bytes pf n u = Some (Inr out, u') \<longrightarrow> n \<le> length (unread u))"
proof (intro conjI impI allI)
  assume a: "pending (fd u) = [] \<and> 0 < n"
  then show "read_loop pf u n buf
        = read_loop pf (u\<lparr>fd := (fd u)\<lparr>read_calls := Suc (read_calls (fd u))\<rparr>\<rparr>) n buf"
    by (intro read_loop_eof_step) auto
  from a show "read_loop pf u n buf = None"
    by (intro read_loop_eof) auto
next
  assume "interruptions_only (pending (fd u)) \<and> length (unread u) < n"
  then show "read_raw_bytes pf n u = None"
    by (intro read_raw_bytes_starved) auto
next
  fix out u'
  assume "read_raw_bytes pf n u = Some (Inr out, u')"
  from read_raw_bytes_returned [OF this] show "n \<le> length (unread u)" by simp
qed

theorem read_raw_bytes_end_of_stream_witness:
  "read_loop example_host (on_stream []) 1 [] = None
   \<and> read_raw_bytes example_host 3 (on_stream [Chunk 1 [2]]) = None
   \<and> read_raw_bytes example_host 2 (on_stream [Chunk 1 [2]])
       = Some (Inr [1, 2], after_read (on_stream [Chunk 1 [2]]) [])
   \<and> (2::nat) \<le> length (unread (on_stream [Chunk 1 [2]]))"
proof -
  have 1: "pending (fd (on_stream [])) = [] \<and> 0 < (1::nat)"
    by (simp add: on_stream_def Unpacker_def)
  have 2: "interruptions_only (pending (fd (on_stream [Chunk 1 [2]])))
         \<and> length (unread (on_stream [Chunk 1 [2]])) < 3"
    by (simp add: on_stream_def Unpacker_def unread_def lookahead_def)
  have 3: "read_raw_bytes example_host 2 (on_stream [Chunk 1 [2]])
       = Some (Inr [1, 2], after_read (on_stream [Chunk 1 [2]]) [])"
    by code_simp
  from read_raw_bytes_end_of_stream [of "on_stream []" 1 example_host "[]"] 1
  have "read_loop example_host (on_stream []) 1 [] = None" by blast
  moreover from read_raw_bytes_end_of_stream [of "on_stream [Chunk 1 [2]]" 3 example_host] 2
  have "read_raw_bytes example_host 3 (on_stream [Chunk 1 [2]]) = None" by blast
  moreover from read_raw_bytes_end_of_stream [of "on_stream [Chunk 1 [2]]" 2 example_host] 3
  have "(2::nat) \<le> length (unread (on_stream [Chunk 1 [2]]))" by blast
  ultimately show ?thesis using 3 by blast
qed

text \<open>
  C6: an underlying read that fails with \<open>EINTR\<close> is tried again with the same count and
  buffer; on a stream whose events, interruptions apart, hold the requested bytes, the call
  returns exactly the next \<open>n\<close> bytes of the logical stream and leaves the rest unread; a
  failure with another \<open>errno\<close> before the bytes have come makes the call throw an error
  whose message ends with the text of \<open>strerror\<close>.
\<close>

theorem read_interrupted_or_failed:
  "(pending (fd u) = Error EINTR # rest \<and> 0 < n \<longrightarrow>
      read_loop pf u n buf = read_loop pf (after_read u rest) n buf)
   \<and> (pending (fd u) = pre @ rest \<and> interruptions_only pre
        \<and> n \<le> length (lookahead u @ data_of pre) \<longrightarrow>
      (\<exists>u'. read_raw_bytes pf n u = Some (Inr (take n (lookahead u @ data_of pre)), u')
           \<and> unread u' = drop n (lookahead u @ data_of pre) @ data_of rest))
   \<and> (pending (fd u) = pre @ Error (Errno k) # rest \<and> interruptions_only pre
        \<and> length (lookahead u @ data_of pre) < n \<longrightarrow>
      (\<exists>u'. read_raw_bytes pf n u
           = Some (Inl (Unpacker_error
                          (''Read from stream failed: '' @ strerror pf (Errno k))), u')))"
proof (intro conjI impI)
  assume "pending (fd u) = Error EINTR # rest \<and> 0 < n"
  then show "read_loop pf u n buf = read_loop pf (after_read u rest) n buf"
    by (intro read_loop_interrupted) auto
next
  assume a: "pending (fd u) = pre @ rest \<and> interruptions_only pre
        \<and> n \<le> length (lookahead u @ data_of pre)"
  then have "\<exists>u'. read_raw_bytes pf n u = Some (Inr (take n (lookahead u @ data_of pre)), u')
       \<and> unread u' = drop n (lookahead u @ data_of pre) @ data_of rest
       \<and> (interruptions_only rest \<longrightarrow> interruptions_only (pending (fd u')))"
    by (intro read_raw_bytes_supplied) auto
  then show "\<exists>u'. read_raw_bytes pf n u = Some (Inr (take n (lookahead u @ data_of pre)), u')
           \<and> unread u' = drop n (lookahead u @ data_of pre) @ data_of rest"
    by blast
next
  assume "pending (fd u) = pre @ Error (Errno k) # rest \<and> interruptions_only pre
        \<and> length (lookahead u @ data_of pre) < n"
  then show "\<exists>u'. read_raw_bytes pf n u
           = Some (Inl (Unpacker_error
                          (''Read from stream failed: '' @ strerror pf (Errno k))), u')"
    by (intro read_raw_bytes_aborted) blast+
qed

theorem read_interrupted_or_failed_witness:
  "read_loop example_host (on_stream [Error EINTR, Chunk 1 [2]]) 2 []
     = read_loop example_host
         (after_read (on_stream [Error EINTR, Chunk 1 [2]]) [Chunk 1 [2]]) 2 []
   \<and> (\<exists>u'. read_raw_bytes example_host 3 (on_stream [Chunk 1 [2], Error EINTR, Chunk 3 [4]])
             = Some (Inr [1, 2, 3], u')
          \<and> unread u' = [4])
   \<and> (\<exists>u'. read_raw_bytes example_host 3 (on_stream [Chunk 1 [2], Error (Errno 5), Chunk 3 [4]])
             = Some (Inl (Unpacker_error ''Read from stream failed: Input/output error''), u'))"
proof (intro conjI)
  show "read_loop example_host (on_stream [Error EINTR, Chunk 1 [2]]) 2 []
     = read_loop example_host
         (after_read (on_stream [Error EINTR, Chunk 1 [2]]) [Chunk 1 [2]]) 2 []"
    using read_interrupted_or_failed
      [where u = "on_stream [Error EINTR, Chunk 1 [2]]" and rest = "[Chunk 1 [2]]" and n = 2
         and pf = example_host and buf = "[]"]
    by simp
  show "\<exists>u'. read_raw_bytes example_host 3 (on_stream [Chunk 1 [2], Error EINTR, Chunk 3 [4]])
             = Some (Inr [1, 2, 3], u')
          \<and> unread u' = [4]"
    using read_interrupted_or_failed
      [where u = "on_stream [Chunk 1 [2], Error EINTR, Chunk 3 [4]]" and rest = "[]" and n = 3
         and pf = example_host and pre = "[Chunk 1 [2], Error EINTR, Chunk 3 [4]]"]
    by simp
  have "strerror example_host (Errno 5) = ''Input/output error''"
    by (simp add: example_host_def)
  then show "\<exists>u'. read_raw_bytes example_host 3
                 (on_stream [Chunk 1 [2], Error (Errno 5), Chunk 3 [4]])
             = Some (Inl (Unpacker_error ''Read from stream failed: Input/output error''), u')"
    using read_interrupted_or_failed
      [where u = "on_stream [Chunk 1 [2], Error (Errno 5), Chunk 3 [4]]"
         and rest = "[Chunk 3 [4]]" and n = 3 and pf = example_host and pre = "[Chunk 1 [2]]" and k = 5]
    by simp
qed

text \<open>
  C5: the lookahead holds at most one byte; \<open>peek\<close> with a buffered byte returns it and
  changes nothing (no read is made); \<open>peek\<close> without one makes exactly one read where data
  is waiting; a \<open>peek\<close> that returns \<open>b\<close> leaves the logical stream as it was, with \<open>b\<close>
  at its head, and the next \<open>peek\<close> returns \<open>b\<close> again in the same state; a read of \<open>n\<close>
  bytes returns \<open>n\<close> bytes which, followed by what is unread afterwards, are what was
  unread before, and it empties the lookahead when \<open>n > 0\<close>.
\<close>

theorem lookahead_invariant:
  "length (lookahead u) \<le> 1
   \<and> (have_next_byte u \<longrightarrow> peek pf u = Some (Inr (next_byte u), u))
   \<and> (\<not> have_next_byte u \<and> pending (fd u) = Chunk c cs # rest \<longrightarrow>
        (\<exists>u'. peek pf u = Some (Inr c, u') \<and> read_calls (fd u') = Suc (read_calls (fd u))))
   \<and> (\<forall>b u'. peek pf u = Some (Inr b, u') \<longrightarrow>
        lookahead u' = [b] \<and> (\<exists>tl. unread u = b # tl \<and> unread u' = b # tl)
        \<and> peek pf u' = Some (Inr b, u'))
   \<and> (\<forall>out u'. read_raw_bytes pf n u = Some (Inr out, u') \<longrightarrow>
        length out = n \<and> unread u = out @ unread u' \<and> (0 < n \<longrightarrow> lookahead u' = []))"
proof (intro conjI impI allI)
  show "length (lookahead u) \<le> 1" by (simp add: lookahead_def)
next
  assume "have_next_byte u"
  then show "peek pf u = Some (Inr (next_byte u), u)" by (rule peek_buffered)
next
  assume a: "\<not> have_next_byte u \<and> pending (fd u) = Chunk c cs # rest"
  show "\<exists>u'. peek pf u = Some (Inr c, u') \<and> read_calls (fd u') = Suc (read_calls (fd u))"
  proof (cases cs)
    case Nil
    with a have "read_loop pf u 1 []
        = read_loop pf (after_read u rest) (1 - Suc (length cs)) ([] @ c # cs)"
      by (intro read_loop_chunk_all) auto
    with a Nil show ?thesis
      by (simp add: peek_def read_raw_bytes_def read_loop_done returns_def)
  next
    case (Cons d ds)
    with a have "read_loop pf u 1 [] = Some (Inr ([] @ take 1 (c # cs)),
           after_read u (Chunk (hd (drop 1 (c # cs))) (tl (drop 1 (c # cs))) # rest))"
      by (intro read_loop_chunk_part) auto
    with a Cons show ?thesis
      by (simp add: peek_def read_raw_bytes_def returns_def)
  qed
next
  fix b u'
  assume p: "peek pf u = Some (Inr b, u')"
  from peek_returned [OF p]
  show "lookahead u' = [b]" by (simp add: lookahead_def)
  from peek_returned [OF p]
  show "\<exists>tl. unread u = b # tl \<and> unread u' = b # tl" by simp
  from peek_returned [OF p] peek_buffered [of u' pf]
  show "peek pf u' = Some (Inr b, u')" by simp
next
  fix out u'
  assume r: "read_raw_bytes pf n u = Some (Inr out, u')"
  from read_raw_bytes_returned [OF r]
  show "length out = n" by simp
  from read_raw_bytes_returned [OF r]
  show "unread u = out @ unread u'" by simp
  show "lookahead u' = []" if "0 < n"
    using that read_raw_bytes_returned [OF r] by (simp add: lookahead_def)
qed

theorem lookahead_invariant_witness:
  "(\<exists>u'. peek example_host (on_stream [Chunk 0xC0 [1, 2]]) = Some (Inr 0xC0, u')
         \<and> read_calls (fd u') = Suc (read_calls (fd (on_stream [Chunk 0xC0 [1, 2]]))))
   \<and> peek example_host (on_stream [Chunk 0xC0 [1, 2]])
     = Some (Inr 0xC0, \<lparr>fd = \<lparr>pending = [Chunk 1 [2]], read_calls = 1\<rparr>,
                         have_next_byte = True, next_byte = 0xC0\<rparr>)
   \<and> unread \<lparr>fd = \<lparr>pending = [Chunk 1 [2]], read_calls = 1\<rparr>,
              have_next_byte = True, next_byte = 0xC0\<rparr> = unread (on_stream [Chunk 0xC0 [1, 2]])
   \<and> peek example_host \<lparr>fd = \<lparr>pending = [Chunk 1 [2]], read_calls = 1\<rparr>,
                         have_next_byte = True, next_byte = 0xC0\<rparr>
     = Some (Inr 0xC0, \<lparr>fd = \<lparr>pending = [Chunk 1 [2]], read_calls = 1\<rparr>,
                         have_next_byte = True, next_byte = 0xC0\<rparr>)
   \<and> read_raw_bytes example_host 2 \<lparr>fd = \<lparr>pending = [Chunk 1 [2]], read_calls = 1\<rparr>,
                                     have_next_byte = True, next_byte = 0xC0\<rparr>
     = Some (Inr [0xC0, 1], \<lparr>fd = \<lparr>pending = [Chunk 2 []], read_calls = 2\<rparr>,
                              have_next_byte = False, next_byte = 0xC0\<rparr>)
   \<and> unread (on_stream [Chunk 0xC0 [1, 2]])
     = [0xC0, 1] @ unread \<lparr>fd = \<lparr>pending = [Chunk 2 []], read_calls = 2\<rparr>,
                           have_next_byte = False, next_byte = 0xC0\<rparr>"
proof -
  let ?u0 = "on_stream [Chunk 0xC0 [1, 2]]"
  let ?u1 = "\<lparr>fd = \<lparr>pending = [Chunk 1 [2]], read_calls = 1\<rparr>,
             have_next_byte = True, next_byte = 0xC0\<rparr>"
  let ?u2 = "\<lparr>fd = \<lparr>pending = [Chunk 2 []], read_calls = 2\<rparr>,
             have_next_byte = False, next_byte = 0xC0\<rparr>"
  have p: "peek example_host ?u0 = Some (Inr 0xC0, ?u1)"
    by code_simp
  have r: "read_raw_bytes example_host 2 ?u1 = Some (Inr [0xC0, 1], ?u2)"
    by code_simp
  have c: "\<not> have_next_byte ?u0 \<and> pending (fd ?u0) = Chunk 0xC0 [1, 2] # []"
    by simp
  have h: "have_next_byte ?u1"
    by simp
  from lookahead_invariant [where u = ?u0 and pf = example_host and c = "0xC0" and cs = "[1, 2]"
      and rest = "[]"] c
  have 0: "\<exists>u'. peek example_host ?u0 = Some (Inr 0xC0, u')
              \<and> read_calls (fd u') = Suc (read_calls (fd ?u0))"
    by blast
  from lookahead_invariant [of ?u0 example_host] p
  have 1: "\<exists>tl. unread ?u0 = 0xC0 # tl \<and> unread ?u1 = 0xC0 # tl"
    by blast
  from lookahead_invariant [of ?u1 example_host] h
  have "peek example_host ?u1 = Some (Inr (next_byte ?u1), ?u1)"
    by blast
  then have 2: "peek example_host ?u1 = Some (Inr 0xC0, ?u1)"
    by simp
  from lookahead_invariant [of ?u1 example_host _ _ _ 2] r
  have 3: "unread ?u1 = [0xC0, 1] @ unread ?u2"
    by blast
  from 1 have 4: "unread ?u1 = unread ?u0"
    by auto
  from 0 p 2 r 3 4 show ?thesis
    by (simp only: simp_thms)
qed

section \<open>Claims about tags\<close>

lemma unpack_positive_fixnum:
  "(read_raw pf u :: byte outcome) = Some (Inr t, u') \<Longrightarrow> t \<le> 0x7F \<Longrightarrow>
   unpack pf T u = Some (Inr (from_uint8 T t), u')"
  by (simp add: unpack_def returns_def)

lemma byte_le_255: "(t :: byte) \<le> 0xFF"
proof -
  have "(0xFF :: byte) = - 1" by simp
  then show ?thesis by (simp only: word_n1_ge)
qed

lemma unat_ucast_byte:
  assumes "8 \<le> LENGTH('a::len)"
  shows "unat (ucast (t :: byte) :: 'a word) = unat t"
proof -
  have "uint (ucast t :: 'a word) = uint t"
    by (rule uint_up_ucast) (simp add: is_up assms)
  then have "nat (uint (ucast t :: 'a word)) = nat (uint t)"
    by (simp only:)
  then show ?thesis
    by simp
qed

lemma unpack_negative_fixnum:
  assumes "(read_raw pf u :: byte outcome) = Some (Inr t, u')" and "0xE0 \<le> t"
  shows "unpack pf T u = Some (Inr (from_int8 T t), u')"
proof -
  from assms(2) have "\<not> t \<le> 0x7F"
    by (simp add: word_le_nat_alt)
  with assms show ?thesis
    by (simp add: unpack_def returns_def byte_le_255)
qed

lemma integer_type_simps [simp]:
  "from_uint8 (integer_type nm cf cd) = ucast"
  "from_int8 (integer_type nm cf cd) = scast"
  "type_name (integer_type nm cf cd) = nm"
  by (simp_all add: integer_type_def)

text \<open>
  C2: when the tag byte read is \<open>t\<close> and the target is an integer type of at least 8 bits,
  a tag \<open>t \<le> 0x7F\<close> decodes to a value that, read as unsigned, is \<open>t\<close>; a tag
  \<open>t \<ge> 0xE0\<close> decodes to a value that, read as signed, is \<open>t\<close> read as a signed 8-bit
  number.
\<close>

theorem fixnum_values:
  assumes "(read_raw pf u :: byte outcome) = Some (Inr t, u')" and "8 \<le> LENGTH('a::len)"
  shows "(t \<le> 0x7F \<longrightarrow>
           (\<exists>r :: 'a word. unpack pf (integer_type nm cf cd) u = Some (Inr r, u')
                \<and> unat r = unat t))
       \<and> (0xE0 \<le> t \<longrightarrow>
           (\<exists>r :: 'a word. unpack pf (integer_type nm cf cd) u = Some (Inr r, u')
                \<and> sint r = sint t))"
proof (intro conjI impI)
  assume "t \<le> 0x7F"
  from unpack_positive_fixnum [OF assms(1) this, of "integer_type nm cf cd :: 'a word target"]
  have "unpack pf (integer_type nm cf cd :: 'a word target) u = Some (Inr (ucast t), u')"
    by simp
  moreover have "unat (ucast t :: 'a word) = unat t"
    using assms(2) by (rule unat_ucast_byte)
  ultimately show "\<exists>r :: 'a word. unpack pf (integer_type nm cf cd) u = Some (Inr r, u')
                \<and> unat r = unat t"
    by blast
next
  assume "0xE0 \<le> t"
  from unpack_negative_fixnum [OF assms(1) this, of "integer_type nm cf cd :: 'a word target"]
  have "unpack pf (integer_type nm cf cd :: 'a word target) u = Some (Inr (scast t), u')"
    by simp
  moreover have "sint (scast t :: 'a word) = sint t"
    using assms(2) by (simp add: sint_up_scast is_up)
  ultimately show "\<exists>r :: 'a word. unpack pf (integer_type nm cf cd) u = Some (Inr r, u')
                \<and> sint r = sint t"
    by blast
qed

lemma read_tag_05: "(read_raw example_host (on_stream [Chunk 0x05 []]) :: byte outcome)
   = Some (Inr 5, after_read (on_stream [Chunk 0x05 []]) [])"
  by code_simp

lemma read_tag_F0: "(read_raw example_host (on_stream [Chunk 0xF0 []]) :: byte outcome)
   = Some (Inr 0xF0, after_read (on_stream [Chunk 0xF0 []]) [])"
  by code_simp

theorem fixnum_values_witness:
  "(\<exists>r. unpack example_host example_int (on_stream [Chunk 0x05 []])
          = Some (Inr r, after_read (on_stream [Chunk 0x05 []]) []) \<and> unat r = 5)
   \<and> (\<exists>r. unpack example_host example_int (on_stream [Chunk 0xF0 []])
          = Some (Inr r, after_read (on_stream [Chunk 0xF0 []]) []) \<and> sint r = - 16)"
proof -
  have w: "8 \<le> LENGTH(32)" by simp
  have "(5 :: byte) \<le> 0x7F" "(0xE0 :: byte) \<le> 0xF0" by simp_all
  with fixnum_values [OF read_tag_05 w, of "''i''" "\<lambda>x. 0" "\<lambda>x. 0"]
    fixnum_values [OF read_tag_F0 w, of "''i''" "\<lambda>x. 0" "\<lambda>x. 0"]
  show ?thesis
    by (simp add: example_int_def)
qed

lemma to_string_128: "to_string 128 = ''128''"
  by code_simp

text \<open>
  C3: the tag 0x7F decodes as a number to 127 (for every target type, the conversion of
  127); the tag 0x80 makes the numeric decode throw, naming 128 and the type, and is taken
  by \<open>next_map_length\<close> as a map of length 0.
\<close>

theorem boundary_0x7F_0x80:
  "((read_raw pf u :: byte outcome) = Some (Inr 0x7F, u') \<longrightarrow>
      unpack pf T u = Some (Inr (from_uint8 T 127), u')
    \<and> unpack pf (integer_type nm cf cd) u = Some (Inr (127 :: 'a::len word), u'))
   \<and> ((read_raw pf u :: byte outcome) = Some (Inr 0x80, u') \<longrightarrow>
      unpack pf T u
        = Some (Inl (Unpacker_error
                       (''Don't know how to convert MessagePack type 128 to type ''
                        @ type_name T)), u')
    \<and> next_map_length pf u = Some (Inr 0, u'))"
  by (simp add: unpack_def next_map_length_def returns_def throws_def dont_know_def to_string_128)


lemma read_tag_7F: "(read_raw example_host (on_stream [Chunk 0x7F []]) :: byte outcome)
   = Some (Inr 0x7F, after_read (on_stream [Chunk 0x7F []]) [])"
  by code_simp

lemma read_tag_80: "(read_raw example_host (on_stream [Chunk 0x80 []]) :: byte outcome)
   = Some (Inr 0x80, after_read (on_stream [Chunk 0x80 []]) [])"
  by code_simp

theorem boundary_0x7F_0x80_witness:
  "unpack example_host example_int (on_stream [Chunk 0x7F []])
     = Some (Inr 127, after_read (on_stream [Chunk 0x7F []]) [])
   \<and> unpack example_host example_int (on_stream [Chunk 0x80 []])
     = Some (Inl (Unpacker_error ''Don't know how to convert MessagePack type 128 to type i''),
             after_read (on_stream [Chunk 0x80 []]) [])
   \<and> next_map_length example_host (on_stream [Chunk 0x80 []])
     = Some (Inr 0, after_read (on_stream [Chunk 0x80 []]) [])"
  using boundary_0x7F_0x80 [of example_host "on_stream [Chunk 0x7F []]"
          "after_read (on_stream [Chunk 0x7F []]) []" example_int "''i''"
          "\<lambda>x. 0 :: 32 word" "\<lambda>x. 0 :: 32 word"]
    boundary_0x7F_0x80 [of example_host "on_stream [Chunk 0x80 []]"
          "after_read (on_stream [Chunk 0x80 []]) []" example_int "''i''"
          "\<lambda>x. 0 :: 32 word" "\<lambda>x. 0 :: 32 word"]
    read_tag_7F read_tag_80
  by (simp add: example_int_def)

lemma read_raw_buffered:
  "have_next_byte u \<Longrightarrow>
   (read_raw pf u :: byte outcome) = Some (Inr (next_byte u), u\<lparr>have_next_byte := False\<rparr>)"
  by (simp add: read_raw_def read_raw_bytes_def read_loop_done returns_def)

text \<open>
  C4: when \<open>peek\<close> finds the nil tag 0xC0, \<open>next_is_nil\<close> returns true and leaves the
  logical stream as it was; \<open>next_nil\<close> then succeeds and consumes exactly that byte.
  Whenever \<open>next_nil\<close> reads a byte \<open>b\<close>, it consumes exactly \<open>b\<close>, and it throws, with a
  message that names the value of \<open>b\<close>, if and only if \<open>b\<close> is not 0xC0.
\<close>

theorem nil_peek_and_consume:
  "(peek pf u = Some (Inr 0xC0, u1) \<longrightarrow>
      next_is_nil pf u = Some (Inr True, u1) \<and> unread u1 = unread u
    \<and> (\<exists>u2. next_nil pf u1 = Some (Inr (), u2) \<and> unread u1 = 0xC0 # unread u2))
   \<and> ((read_raw pf u :: byte outcome) = Some (Inr b, u') \<longrightarrow>
      unread u = b # unread u'
    \<and> next_nil pf u
        = (if b \<noteq> 0xC0
           then Some (Inl (Unpacker_error
                  (''Don't know how to convert MessagePack type '' @ to_string (uint b)
                   @ '' to nil'')), u')
           else Some (Inr (), u')))"
proof (intro conjI impI)
  assume p: "peek pf u = Some (Inr 0xC0, u1)"
  then show "next_is_nil pf u = Some (Inr True, u1)"
    by (simp add: next_is_nil_def returns_def)
  from peek_returned [OF p] show "unread u1 = unread u"
    by auto
  from peek_returned [OF p] have h: "have_next_byte u1" "next_byte u1 = 0xC0"
    by simp_all
  from read_raw_buffered [OF h(1), of pf] h(2)
  have "next_nil pf u1 = Some (Inr (), u1\<lparr>have_next_byte := False\<rparr>)"
    by (simp add: next_nil_def returns_def)
  moreover from h have "unread u1 = 0xC0 # unread (u1\<lparr>have_next_byte := False\<rparr>)"
    by (simp add: unread_def lookahead_def)
  ultimately show "\<exists>u2. next_nil pf u1 = Some (Inr (), u2) \<and> unread u1 = 0xC0 # unread u2"
    by blast
next
  assume r: "(read_raw pf u :: byte outcome) = Some (Inr b, u')"
  from read_raw_byte_returned [OF r] show "unread u = b # unread u'"
    by simp
  from r show "next_nil pf u
        = (if b \<noteq> 0xC0
           then Some (Inl (Unpacker_error
                  (''Don't know how to convert MessagePack type '' @ to_string (uint b)
                   @ '' to nil'')), u')
           else Some (Inr (), u'))"
    by (simp add: next_nil_def returns_def throws_def dont_know_def)
qed

lemma read_tag_C1: "(read_raw example_host (on_stream [Chunk 0xC1 [7]]) :: byte outcome)
   = Some (Inr 0xC1, after_read (on_stream [Chunk 0xC1 [7]]) [Chunk 7 []])"
  by code_simp

lemma peek_tag_C0: "peek example_host (on_stream [Chunk 0xC0 [7]])
   = Some (Inr 0xC0, (after_read (on_stream [Chunk 0xC0 [7]]) [Chunk 7 []])
                       \<lparr>next_byte := 0xC0, have_next_byte := True\<rparr>)"
  by code_simp

lemma to_string_193: "to_string 193 = ''193''"
  by code_simp

theorem nil_peek_and_consume_witness:
  "next_is_nil example_host (on_stream [Chunk 0xC0 [7]])
     = Some (Inr True, (after_read (on_stream [Chunk 0xC0 [7]]) [Chunk 7 []])
                         \<lparr>next_byte := 0xC0, have_next_byte := True\<rparr>)
   \<and> (\<exists>u2. next_nil example_host ((after_read (on_stream [Chunk 0xC0 [7]]) [Chunk 7 []])
                                     \<lparr>next_byte := 0xC0, have_next_byte := True\<rparr>)
              = Some (Inr (), u2)
          \<and> unread u2 = [7])
   \<and> next_nil example_host (on_stream [Chunk 0xC1 [7]])
     = Some (Inl (Unpacker_error ''Don't know how to convert MessagePack type 193 to nil''),
             after_read (on_stream [Chunk 0xC1 [7]]) [Chunk 7 []])"
proof -
  let ?u1 = "(after_read (on_stream [Chunk 0xC0 [7]]) [Chunk 7 []])
               \<lparr>next_byte := 0xC0, have_next_byte := True\<rparr>"
  from nil_peek_and_consume [where pf = example_host and u = "on_stream [Chunk 0xC0 [7]]"
          and ?u1.0 = ?u1] peek_tag_C0
  have a: "next_is_nil example_host (on_stream [Chunk 0xC0 [7]]) = Some (Inr True, ?u1)"
    and b: "\<exists>u2. next_nil example_host ?u1 = Some (Inr (), u2)
                \<and> unread ?u1 = 0xC0 # unread u2"
    by blast+
  have "unread ?u1 = [0xC0, 7]"
    by (simp add: unread_def lookahead_def)
  with b have b': "\<exists>u2. next_nil example_host ?u1 = Some (Inr (), u2) \<and> unread u2 = [7]"
    by auto
  from nil_peek_and_consume [where pf = example_host and u = "on_stream [Chunk 0xC1 [7]]"
          and b = "0xC1" and u' = "after_read (on_stream [Chunk 0xC1 [7]]) [Chunk 7 []]"] read_tag_C1
  have "next_nil example_host (on_stream [Chunk 0xC1 [7]])
        = (if (0xC1 :: byte) \<noteq> 0xC0
           then Some (Inl (Unpacker_error
                  (''Don't know how to convert MessagePack type ''
                   @ to_string (uint (0xC1 :: byte)) @ '' to nil'')), after_read (on_stream [Chunk 0xC1 [7]]) [Chunk 7 []])
           else Some (Inr (), after_read (on_stream [Chunk 0xC1 [7]]) [Chunk 7 []]))"
    by blast
  then have c: "next_nil example_host (on_stream [Chunk 0xC1 [7]])
     = Some (Inl (Unpacker_error ''Don't know how to convert MessagePack type 193 to nil''),
             after_read (on_stream [Chunk 0xC1 [7]]) [Chunk 7 []])"
    by (simp add: to_string_193)
  from a b' c show ?thesis
    by blast
qed

section \<open>Byte order\<close>



















section \<open>Claim about vectors\<close>

lemma and_then_assoc:
  "and_then (and_then m f) g = and_then m (\<lambda>x u. and_then (f x u) g)"
  by (auto simp: and_then_def split: option.splits sum.splits prod.splits)

lemma and_then_returns_right [simp]: "and_then m returns = m"
  by (auto simp: and_then_def returns_def split: option.splits sum.splits prod.splits)

lemma next_value_eq [simp]: "next_value dec u = dec u"
  by (simp add: next_value_def)

lemma unpack_elements_decode_seq:
  "unpack_elements dec n obj
   = (\<lambda>u. and_then (decode_seq dec n u) (\<lambda>xs. returns (obj @ xs)))"
proof (induction n arbitrary: obj)
  case 0
  show ?case by (rule ext) simp
next
  case (Suc n)
  show ?case
    by (rule ext) (simp add: Suc.IH and_then_assoc)
qed

lemma decode_seq_length:
  "decode_seq dec n u = Some (Inr xs, u') \<Longrightarrow> length xs = n"
proof (induction n arbitrary: u xs)
  case 0
  then show ?case by (simp add: returns_def)
next
  case (Suc n)
  from Suc.prems obtain x u1 ys where "decode_seq dec n u1 = Some (Inr ys, u')" "xs = x # ys"
    by (auto simp: and_then_returned returns_def)
  with Suc.IH show ?case by auto
qed

lemma decode_seq_first_throws:
  "0 < n \<Longrightarrow> dec u = Some (Inl e, u') \<Longrightarrow> decode_seq dec n u = Some (Inl e, u')"
  by (cases n) simp_all

lemma next_array_length_92:
  "next_array_length example_host (on_stream [Chunk 0x92 [0x01, 0x02]])
   = Some (Inr 2, after_read (on_stream [Chunk 0x92 [0x01, 0x02]]) [Chunk 1 [2]])"
  by code_simp

lemma decode_seq_1_2:
  "decode_seq (unpack example_host example_int) 2
     (after_read (on_stream [Chunk 0x92 [0x01, 0x02]]) [Chunk 1 [2]])
   = Some (Inr [1, 2], \<lparr>fd = \<lparr>pending = [], read_calls = 3\<rparr>,
                           have_next_byte = False, next_byte = 0\<rparr>)"
  by code_simp

lemma and_then_reserve:
  "and_then (reserve st n u) (\<lambda>_. f)
   = (if max_size st < n then Some (Inl Length_error, u)
      else if capacity st < n \<and> \<not> can_allocate st n then Some (Inl Bad_alloc, u)
      else f u)"
  by (simp add: reserve_def returns_def)

text \<open>
  C7, as amended: the vector operator is \<open>next_array_length\<close>, then the reservation of
  storage for the \<open>n\<close> elements, which throws \<^verbatim>\<open>std::length_error\<close> when \<open>n\<close> exceeds
  \<^verbatim>\<open>max_size()\<close> and \<^verbatim>\<open>std::bad_alloc\<close> when storage beyond the capacity is needed and
  cannot be had, in both cases before any element is decoded, and otherwise \<open>n\<close> decodes of
  the element type one after the other, the values in the order of the stream (also in what
  they throw and in when they do not return); \<open>n\<close> decodes that return give \<open>n\<close> values;
  and where storage for two elements can be had, the bytes 0x92, 0x01, 0x02 decode as a
  vector of \<^verbatim>\<open>int\<close> to \<open>[1, 2]\<close>.
\<close>

theorem vector_decode:
  "unpack_vector st dec pf u
     = and_then (next_array_length pf u)
         (\<lambda>n u. if max_size st < n then Some (Inl Length_error, u)
                else if capacity st < n \<and> \<not> can_allocate st n then Some (Inl Bad_alloc, u)
                else decode_seq dec n u)
   \<and> (\<forall>xs u'. decode_seq dec n u = Some (Inr xs, u') \<longrightarrow> length xs = n)
   \<and> unpack_vector example_storage (unpack example_host example_int) example_host
        (on_stream [Chunk 0x92 [0x01, 0x02]])
      = Some (Inr [1, 2], \<lparr>fd = \<lparr>pending = [], read_calls = 3\<rparr>,
                           have_next_byte = False, next_byte = 0\<rparr>)"
proof (intro conjI allI impI)
  show "unpack_vector st dec pf u
     = and_then (next_array_length pf u)
         (\<lambda>n u. if max_size st < n then Some (Inl Length_error, u)
                else if capacity st < n \<and> \<not> can_allocate st n then Some (Inl Bad_alloc, u)
                else decode_seq dec n u)"
    by (simp add: unpack_vector_def and_then_reserve unpack_elements_decode_seq)
  show "length xs = n" if "decode_seq dec n u = Some (Inr xs, u')" for xs u'
    using that by (rule decode_seq_length)
  let ?dec = "unpack example_host example_int"
  let ?u1 = "after_read (on_stream [Chunk 0x92 [0x01, 0x02]]) [Chunk 1 [2]]"
  have "unpack_vector example_storage ?dec example_host (on_stream [Chunk 0x92 [0x01, 0x02]])
      = and_then (reserve example_storage 2 ?u1) (\<lambda>_. unpack_elements ?dec 2 [])"
    by (simp only: unpack_vector_def next_array_length_92 and_then_Some_Inr)
  also have "\<dots> = unpack_elements ?dec 2 [] ?u1"
    unfolding and_then_reserve by (simp add: example_storage_def)
  also have "\<dots> = Some (Inr [1, 2], \<lparr>fd = \<lparr>pending = [], read_calls = 3\<rparr>,
                                       have_next_byte = False, next_byte = 0\<rparr>)"
    by (simp only: unpack_elements_decode_seq decode_seq_1_2 and_then_Some_Inr returns_def
          append_Nil)
  finally show "unpack_vector example_storage ?dec example_host
        (on_stream [Chunk 0x92 [0x01, 0x02]])
      = Some (Inr [1, 2], \<lparr>fd = \<lparr>pending = [], read_calls = 3\<rparr>,
                           have_next_byte = False, next_byte = 0\<rparr>)" .
qed

theorem vector_decode_witness:
  "unpack_vector example_storage (unpack example_host example_int) example_host
        (on_stream [Chunk 0x92 [0x01, 0x02]])
     = decode_seq (unpack example_host example_int) 2
         (after_read (on_stream [Chunk 0x92 [0x01, 0x02]]) [Chunk 1 [2]])
   \<and> decode_seq (unpack example_host example_int) 2
       (after_read (on_stream [Chunk 0x92 [0x01, 0x02]]) [Chunk 1 [2]])
     = Some (Inr [1, 2], \<lparr>fd = \<lparr>pending = [], read_calls = 3\<rparr>,
                           have_next_byte = False, next_byte = 0\<rparr>)
   \<and> length [1, 2 :: 32 word] = 2"
proof -
  let ?dec = "unpack example_host example_int"
  let ?u0 = "on_stream [Chunk 0x92 [0x01, 0x02]]"
  let ?u1 = "after_read ?u0 [Chunk 1 [2]]"
  have s: "\<not> max_size example_storage < 2"
    "\<not> (capacity example_storage < 2 \<and> \<not> can_allocate example_storage 2)"
    by (simp_all add: example_storage_def)
  from vector_decode [of example_storage ?dec example_host ?u0, THEN conjunct1]
    next_array_length_92 s
  have 1: "unpack_vector example_storage ?dec example_host ?u0 = decode_seq ?dec 2 ?u1"
    by simp
  from vector_decode [of example_storage ?dec example_host ?u1 2, THEN conjunct2,
      THEN conjunct1, rule_format, OF decode_seq_1_2]
  have 2: "length [1, 2 :: 32 word] = 2" .
  from 1 2 decode_seq_1_2 show ?thesis
    by (simp only: simp_thms)
qed

text \<open>
  C7 as it was stated, the count and then \<open>n\<close> decodes whatever \<open>n\<close> is, fails where the
  reservation throws. The header DD FF FF FF FF announces 4294967295 elements; the
  allocator of the example cannot give that storage, and the operator throws
  \<^verbatim>\<open>std::bad_alloc\<close> with the next byte, 0xC1, unread: no element is decoded. 4294967295
  decodes from there would have read 0xC1 and thrown the decode failure that names 193.
\<close>

lemma read_tag_DD:
  "(read_raw example_host (on_stream [Chunk 0xDD [0xFF, 0xFF, 0xFF, 0xFF, 0xC1]])
      :: byte outcome)
   = Some (Inr 0xDD,
           \<lparr>fd = \<lparr>pending = [Chunk 0xFF [0xFF, 0xFF, 0xFF, 0xC1]], read_calls = 1\<rparr>,
            have_next_byte = False, next_byte = 0\<rparr>)"
  by code_simp

lemma read_count_FFFFFFFF:
  "(read_raw example_host
      \<lparr>fd = \<lparr>pending = [Chunk 0xFF [0xFF, 0xFF, 0xFF, 0xC1]], read_calls = 1\<rparr>,
       have_next_byte = False, next_byte = 0\<rparr> :: 32 word outcome)
   = Some (Inr 0xFFFFFFFF, \<lparr>fd = \<lparr>pending = [Chunk 0xC1 []], read_calls = 2\<rparr>,
                             have_next_byte = False, next_byte = 0\<rparr>)"
  by code_simp

lemma ntohl_FFFFFFFF: "ntohl example_host 0xFFFFFFFF = 0xFFFFFFFF"
  by code_simp

lemma next_array_length_DD:
  "next_array_length example_host (on_stream [Chunk 0xDD [0xFF, 0xFF, 0xFF, 0xFF, 0xC1]])
   = Some (Inr 4294967295, \<lparr>fd = \<lparr>pending = [Chunk 0xC1 []], read_calls = 2\<rparr>,
                             have_next_byte = False, next_byte = 0\<rparr>)"
proof -
  have "next_array_length example_host (on_stream [Chunk 0xDD [0xFF, 0xFF, 0xFF, 0xFF, 0xC1]])
      = and_then (read_raw example_host
                    \<lparr>fd = \<lparr>pending = [Chunk 0xFF [0xFF, 0xFF, 0xFF, 0xC1]], read_calls = 1\<rparr>,
                     have_next_byte = False, next_byte = 0\<rparr> :: 32 word outcome)
          (\<lambda>x. returns (unat (ntohl example_host x)))"
    by (simp add: next_array_length_def read_tag_DD)
  also have "\<dots> = Some (Inr (unat (0xFFFFFFFF :: 32 word)),
                       \<lparr>fd = \<lparr>pending = [Chunk 0xC1 []], read_calls = 2\<rparr>,
                        have_next_byte = False, next_byte = 0\<rparr>)"
    by (simp only: read_count_FFFFFFFF and_then_Some_Inr returns_def ntohl_FFFFFFFF)
  also have "unat (0xFFFFFFFF :: 32 word) = 4294967295"
    by simp
  finally show ?thesis .
qed

lemma unpack_tag_C1:
  "unpack example_host example_int
     \<lparr>fd = \<lparr>pending = [Chunk 0xC1 []], read_calls = 2\<rparr>, have_next_byte = False, next_byte = 0\<rparr>
   = Some (Inl (Unpacker_error ''Don't know how to convert MessagePack type 193 to type i''),
           \<lparr>fd = \<lparr>pending = [], read_calls = 3\<rparr>, have_next_byte = False, next_byte = 0\<rparr>)"
  by code_simp

theorem vector_decode_counterexample:
  "next_array_length example_host (on_stream [Chunk 0xDD [0xFF, 0xFF, 0xFF, 0xFF, 0xC1]])
     = Some (Inr 4294967295, \<lparr>fd = \<lparr>pending = [Chunk 0xC1 []], read_calls = 2\<rparr>,
                               have_next_byte = False, next_byte = 0\<rparr>)
   \<and> unpack_vector example_storage (unpack example_host example_int) example_host
       (on_stream [Chunk 0xDD [0xFF, 0xFF, 0xFF, 0xFF, 0xC1]])
     = Some (Inl Bad_alloc, \<lparr>fd = \<lparr>pending = [Chunk 0xC1 []], read_calls = 2\<rparr>,
                              have_next_byte = False, next_byte = 0\<rparr>)
   \<and> decode_seq (unpack example_host example_int) 4294967295
       \<lparr>fd = \<lparr>pending = [Chunk 0xC1 []], read_calls = 2\<rparr>, have_next_byte = False, next_byte = 0\<rparr>
     = Some (Inl (Unpacker_error ''Don't know how to convert MessagePack type 193 to type i''),
             \<lparr>fd = \<lparr>pending = [], read_calls = 3\<rparr>, have_next_byte = False, next_byte = 0\<rparr>)
   \<and> unpack_vector example_storage (unpack example_host example_int) example_host
       (on_stream [Chunk 0xDD [0xFF, 0xFF, 0xFF, 0xFF, 0xC1]])
     \<noteq> and_then (next_array_length example_host
                    (on_stream [Chunk 0xDD [0xFF, 0xFF, 0xFF, 0xFF, 0xC1]]))
          (decode_seq (unpack example_host example_int))"
proof -
  let ?dec = "unpack example_host example_int"
  let ?u0 = "on_stream [Chunk 0xDD [0xFF, 0xFF, 0xFF, 0xFF, 0xC1]]"
  let ?u1 = "\<lparr>fd = \<lparr>pending = [Chunk 0xC1 []], read_calls = 2\<rparr>,
             have_next_byte = False, next_byte = 0\<rparr>"
  have "unpack_vector example_storage ?dec example_host ?u0
      = and_then (reserve example_storage 4294967295 ?u1)
          (\<lambda>_. unpack_elements ?dec 4294967295 [])"
    by (simp only: unpack_vector_def next_array_length_DD and_then_Some_Inr)
  also have "\<dots> = Some (Inl Bad_alloc, ?u1)"
    unfolding and_then_reserve by (simp add: example_storage_def)
  finally have 1: "unpack_vector example_storage ?dec example_host ?u0
      = Some (Inl Bad_alloc, ?u1)" .
  have 2: "decode_seq ?dec 4294967295 ?u1
     = Some (Inl (Unpacker_error ''Don't know how to convert MessagePack type 193 to type i''),
             \<lparr>fd = \<lparr>pending = [], read_calls = 3\<rparr>, have_next_byte = False, next_byte = 0\<rparr>)"
    by (rule decode_seq_first_throws [where dec = ?dec and u = ?u1, OF _ unpack_tag_C1]) simp
  have 3: "and_then (next_array_length example_host ?u0) (decode_seq ?dec)
     = Some (Inl (Unpacker_error ''Don't know how to convert MessagePack type 193 to type i''),
             \<lparr>fd = \<lparr>pending = [], read_calls = 3\<rparr>, have_next_byte = False, next_byte = 0\<rparr>)"
    by (simp only: next_array_length_DD and_then_Some_Inr 2)
  have 4: "unpack_vector example_storage ?dec example_host ?u0
     \<noteq> and_then (next_array_length example_host ?u0) (decode_seq ?dec)"
    unfolding 1 3 by simp
  from next_array_length_DD 1 2 4 show ?thesis
    by (simp only: simp_thms)
qed

section \<open>Claim about strings\<close>



section \<open>Claim about floating point payloads\<close>

text \<open>
  C1: the numeric operator reads a \<^verbatim>\<open>float\<close> or \<^verbatim>\<open>double\<close> payload with \<open>read_raw\<close> and
  applies no byte order conversion, unlike the integer cases. On the little-endian example
  host the payload 3F 80 00 00, which is 1.0 in big-endian order (bits 0x3F800000), gives a
  \<^verbatim>\<open>float\<close> with the bits 0x0000803F, and the payload 3F F0 00 00 00 00 00 00 (the
  \<^verbatim>\<open>double\<close> 1.0) gives the bits 0x000000000000F03F, while the same four bytes after the
  \<^verbatim>\<open>uint32\<close> tag give 0x3F800000.
\<close>

theorem float_payload_not_byte_swapped:
  "little_endian example_host
   \<and> unpack example_host example_float (on_stream [Chunk 0xCA [0x3F, 0x80, 0x00, 0x00]])
     = Some (Inr 0x0000803F,
           \<lparr>fd = \<lparr>pending = [], read_calls = 2\<rparr>, have_next_byte = False, next_byte = 0\<rparr>)
   \<and> (be_value [0x3F, 0x80, 0x00, 0x00] :: 32 word) = 0x3F800000
   \<and> unpack example_host example_double
       (on_stream [Chunk 0xCB [0x3F, 0xF0, 0x00, 0x00, 0x00, 0x00, 0x00, 0x00]])
     = Some (Inr 0x000000000000F03F,
           \<lparr>fd = \<lparr>pending = [], read_calls = 2\<rparr>, have_next_byte = False, next_byte = 0\<rparr>)
   \<and> (be_value [0x3F, 0xF0, 0x00, 0x00, 0x00, 0x00, 0x00, 0x00] :: 64 word)
     = 0x3FF0000000000000
   \<and> unpack example_host example_int (on_stream [Chunk 0xCE [0x3F, 0x80, 0x00, 0x00]])
     = Some (Inr 0x3F800000,
           \<lparr>fd = \<lparr>pending = [], read_calls = 2\<rparr>, have_next_byte = False, next_byte = 0\<rparr>)"
  by code_simp

end
